theory Spec2Isabelle
  imports Main "HOL-Library.Word"
begin

section \<open>Load\_Balancer.cpp: data model\<close>

text \<open>
  The C++ \<^verbatim>\<open>int\<close> fields are 32-bit two's complement values: \<open>32 word\<close>, read with
  \<open>sint\<close> and compared with the signed orders \<open><s\<close> and \<open>\<le>s\<close>. \<open>++\<close> and \<open>--\<close> are
  the wrapping \<open>+ 1\<close> and \<open>- 1\<close> of the word type; the theorems below show that the
  guards of the code keep both away from the wrap-around.
\<close>

type_synonym int32 = "32 word"

text \<open>\<^verbatim>\<open>size_t\<close>, the result type of \<^verbatim>\<open>std::hash<string>\<close>.\<close>

type_synonym size_t = "64 word"

text \<open>
  Objects are shared through raw pointers (\<^verbatim>\<open>Destination*\<close>, \<^verbatim>\<open>Service*\<close>). A pointer is
  an address; \<^verbatim>\<open>std::set<Destination*>\<close> orders its elements by address.
\<close>

type_synonym dest_ptr = nat
type_synonym service_ptr = nat

record Request =
  id :: string
  requestType :: string
  parameters :: "string \<rightharpoonup> string"

record Destination =
  ipAddress :: string
  requestsBeingServed :: int32
  threshold :: int32

text \<open>The lines written to \<^verbatim>\<open>cout\<close> by a Destination, with the values they print.\<close>

datatype console_line =
  Accepted string int32
| Rejected string
| Completed string int32

section \<open>Destination\<close>

text \<open>
  The constructor \<^verbatim>\<open>Destination(string ip, int thresh)\<close>: the member initialiser list
  sets \<open>ipAddress\<close> and \<open>threshold\<close>, the default member initialiser sets
  \<open>requestsBeingServed\<close> to 0. There is no check of \<open>thresh\<close>.
\<close>

definition Destination_new :: "string \<Rightarrow> int32 \<Rightarrow> Destination" where
  "Destination_new ip thresh =
     \<lparr>ipAddress = ip, requestsBeingServed = 0, threshold = thresh\<rparr>"

text \<open>
  \<^verbatim>\<open>bool acceptRequest(Request& request)\<close>: the returned boolean, the object after the
  call, and the line printed.
\<close>

definition acceptRequest :: "Destination \<Rightarrow> Request \<Rightarrow> bool \<times> Destination \<times> console_line list" where
  "acceptRequest d request =
     (if requestsBeingServed d <s threshold d then
        (let d' = d\<lparr>requestsBeingServed := requestsBeingServed d + 1\<rparr>
         in (True, d', [Accepted (ipAddress d') (requestsBeingServed d')]))
      else (False, d, [Rejected (ipAddress d)]))"

text \<open>\<^verbatim>\<open>void completeRequest()\<close>: the object after the call and the lines printed.\<close>

definition completeRequest :: "Destination \<Rightarrow> Destination \<times> console_line list" where
  "completeRequest d =
     (if 0 <s requestsBeingServed d then
        (let d' = d\<lparr>requestsBeingServed := requestsBeingServed d - 1\<rparr>
         in (d', [Completed (ipAddress d') (requestsBeingServed d')]))
      else (d, []))"

text \<open>
  A caller's sequence of calls on one Destination: each call is \<open>acceptRequest\<close> with
  some request or \<open>completeRequest\<close>. \<open>run_calls\<close> performs them in order and returns
  the object after the last call together with the booleans the \<open>acceptRequest\<close> calls
  returned, in call order.
\<close>

datatype destination_call = CallAccept Request | CallComplete

fun run_calls :: "Destination \<Rightarrow> destination_call list \<Rightarrow> Destination \<times> bool list" where
  "run_calls d [] = (d, [])"
| "run_calls d (CallAccept request # cs) =
     (case acceptRequest d request of (b, d', out) \<Rightarrow>
        (case run_calls d' cs of (d'', bs) \<Rightarrow> (d'', b # bs)))"
| "run_calls d (CallComplete # cs) =
     (case completeRequest d of (d', out) \<Rightarrow> run_calls d' cs)"

text \<open>The load invariant of the spec, \<open>0 \<le> load \<le> capacity\<close>, on the signed values.\<close>

definition load_in_range :: "Destination \<Rightarrow> bool" where
  "load_in_range d \<longleftrightarrow> 0 \<le>s requestsBeingServed d \<and> requestsBeingServed d \<le>s threshold d"

section \<open>Service\<close>

text \<open>
  \<^verbatim>\<open>std::set<Destination*>\<close> is modelled by the list of its elements in iteration
  order, which is ascending address order without repetition. \<open>set_insert\<close> and
  \<open>set_erase\<close> are \<^verbatim>\<open>insert\<close> and \<^verbatim>\<open>erase\<close> of the container: inserting a present
  element and erasing an absent one change nothing.
\<close>

record Service =
  name :: string
  destinations :: "dest_ptr list"

fun set_insert :: "dest_ptr \<Rightarrow> dest_ptr list \<Rightarrow> dest_ptr list" where
  "set_insert p [] = [p]"
| "set_insert p (x # xs) =
     (if p < x then p # x # xs
      else if p = x then x # xs
      else x # set_insert p xs)"

fun set_erase :: "dest_ptr \<Rightarrow> dest_ptr list \<Rightarrow> dest_ptr list" where
  "set_erase p [] = []"
| "set_erase p (x # xs) = (if p = x then xs else x # set_erase p xs)"

definition addDestination :: "Service \<Rightarrow> dest_ptr \<Rightarrow> Service" where
  "addDestination s destination = s\<lparr>destinations := set_insert destination (destinations s)\<rparr>"

definition removeDestination :: "Service \<Rightarrow> dest_ptr \<Rightarrow> Service" where
  "removeDestination s destination = s\<lparr>destinations := set_erase destination (destinations s)\<rparr>"

section \<open>The store\<close>

text \<open>
  The objects the pointers refer to: a Destination store and a Service store. An address
  with no object is a dangling or null pointer.
\<close>

record heap =
  dest_heap :: "dest_ptr \<rightharpoonup> Destination"
  service_heap :: "service_ptr \<rightharpoonup> Service"

text \<open>
  \<^verbatim>\<open>throw runtime_error(msg)\<close> is the value \<open>runtime_error msg\<close>. Reading through a pointer
  with no object, dereferencing the end iterator and \<^verbatim>\<open>front()\<close> of an empty queue have
  no defined behaviour in C++; the model gives them the outcome \<open>UndefinedBehaviour\<close>,
  so that no theorem can rely on what happens there.
\<close>

datatype error = runtime_error string | UndefinedBehaviour

abbreviation UnknownRequestTypeError :: error where
  "UnknownRequestTypeError \<equiv> runtime_error ''No service found for the request type.''"

abbreviation NoCandidatesError :: error where
  "NoCandidatesError \<equiv> runtime_error ''No destinations available.''"

section \<open>LoadBalancer\<close>

text \<open>
  The base class holds \<open>serviceMap\<close>; \<^verbatim>\<open>RoundRobinLoadBalancer\<close> adds the private
  \<open>destinationQueues\<close>, a queue being the list of its elements from front to back.
\<close>

record LoadBalancer =
  serviceMap :: "string \<rightharpoonup> service_ptr"

record RoundRobinLoadBalancer = LoadBalancer +
  destinationQueues :: "string \<rightharpoonup> dest_ptr list"

definition registerService ::
  "'a LoadBalancer_scheme \<Rightarrow> string \<Rightarrow> service_ptr \<Rightarrow> 'a LoadBalancer_scheme" where
  "registerService lb rt service = lb\<lparr>serviceMap := (serviceMap lb)(rt \<mapsto> service)\<rparr>"

text \<open>
  \<^verbatim>\<open>getDestinations\<close> returns a reference to the set of the registered Service; no caller
  writes through it, so the model returns the set's elements. \<^verbatim>\<open>serviceMap[...]\<close> is
  reached only when the key is present, where it is a plain lookup.
\<close>

definition getDestinations ::
  "heap \<Rightarrow> 'a LoadBalancer_scheme \<Rightarrow> Request \<Rightarrow> error + dest_ptr list" where
  "getDestinations h lb request =
     (case serviceMap lb (requestType request) of
        None \<Rightarrow> Inl UnknownRequestTypeError
      | Some sp \<Rightarrow>
          (case service_heap h sp of
             None \<Rightarrow> Inl UndefinedBehaviour
           | Some s \<Rightarrow> Inr (destinations s)))"

subsection \<open>LeastConnectionLoadBalancer\<close>

text \<open>
  \<^verbatim>\<open>std::min_element(first, last, comp)\<close>: the first element is the smallest so far, and
  each later element replaces it when \<open>cmp element smallest\<close> holds. The comparator
  reads through pointers, so it answers \<open>None\<close> when one of them has no object. The
  result \<open>None\<close> of \<open>min_element\<close> stands for an iterator that cannot be dereferenced:
  the end iterator of an empty range, or a comparison without defined behaviour.
\<close>

fun min_element_from :: "('a \<Rightarrow> 'a \<Rightarrow> bool option) \<Rightarrow> 'a \<Rightarrow> 'a list \<Rightarrow> 'a option" where
  "min_element_from cmp smallest [] = Some smallest"
| "min_element_from cmp smallest (x # xs) =
     (case cmp x smallest of
        None \<Rightarrow> None
      | Some b \<Rightarrow> min_element_from cmp (if b then x else smallest) xs)"

fun min_element :: "('a \<Rightarrow> 'a \<Rightarrow> bool option) \<Rightarrow> 'a list \<Rightarrow> 'a option" where
  "min_element cmp [] = None"
| "min_element cmp (x # xs) = min_element_from cmp x xs"

text \<open>The lambda \<^verbatim>\<open>a->requestsBeingServed < b->requestsBeingServed\<close>.\<close>

definition fewer_requests :: "heap \<Rightarrow> dest_ptr \<Rightarrow> dest_ptr \<Rightarrow> bool option" where
  "fewer_requests h a b =
     (case dest_heap h a of
        None \<Rightarrow> None
      | Some da \<Rightarrow>
          (case dest_heap h b of
             None \<Rightarrow> None
           | Some db \<Rightarrow> Some (requestsBeingServed da <s requestsBeingServed db)))"

definition LeastConnection_balanceLoad ::
  "heap \<Rightarrow> 'a LoadBalancer_scheme \<Rightarrow> Request \<Rightarrow> error + dest_ptr" where
  "LeastConnection_balanceLoad h lb request =
     (case getDestinations h lb request of
        Inl e \<Rightarrow> Inl e
      | Inr ds \<Rightarrow>
          if ds = [] then Inl NoCandidatesError
          else (case min_element (fewer_requests h) ds of
                  None \<Rightarrow> Inl UndefinedBehaviour
                | Some destination \<Rightarrow> Inr destination))"

subsection \<open>RoutedLoadBalancer\<close>

text \<open>
  \<^verbatim>\<open>std::hash<string>\<close> belongs to the standard library and is a parameter of the model.
  \<open>list\<close> is the vector copied from the set, \<open>index\<close> the remainder of the hash by
  \<^verbatim>\<open>list.size()\<close>, both unsigned: the remainder of the natural numbers they denote.
\<close>

definition Routed_balanceLoad ::
  "(string \<Rightarrow> size_t) \<Rightarrow> heap \<Rightarrow> 'a LoadBalancer_scheme \<Rightarrow> Request \<Rightarrow> error + dest_ptr" where
  "Routed_balanceLoad hash h lb request =
     (case getDestinations h lb request of
        Inl e \<Rightarrow> Inl e
      | Inr ds \<Rightarrow>
          if ds = [] then Inl NoCandidatesError
          else (let list = ds;
                    index = unat (hash (id request)) mod length list
                in Inr (list ! index)))"

subsection \<open>RoundRobinLoadBalancer\<close>

text \<open>The loop \<^verbatim>\<open>for (Destination* dest : destinations) q.push(dest)\<close> on an empty \<open>q\<close>.\<close>

definition fill_queue :: "dest_ptr list \<Rightarrow> dest_ptr list" where
  "fill_queue ds = foldl (\<lambda>q dest. q @ [dest]) [] ds"

text \<open>\<^verbatim>\<open>destinationQueues[key]\<close>: the stored queue, or a new empty one for an absent key.\<close>

definition queue_at :: "(string \<rightharpoonup> dest_ptr list) \<Rightarrow> string \<Rightarrow> dest_ptr list" where
  "queue_at queues key = (case queues key of None \<Rightarrow> [] | Some q \<Rightarrow> q)"

definition RoundRobin_balanceLoad ::
  "heap \<Rightarrow> RoundRobinLoadBalancer \<Rightarrow> Request \<Rightarrow> (error + dest_ptr) \<times> RoundRobinLoadBalancer" where
  "RoundRobin_balanceLoad h lb request =
     (case getDestinations h lb request of
        Inl e \<Rightarrow> (Inl e, lb)
      | Inr ds \<Rightarrow>
          if ds = [] then (Inl NoCandidatesError, lb)
          else
            (let key = requestType request;
                 queues = (if destinationQueues lb key = None
                           then (destinationQueues lb)(key \<mapsto> fill_queue ds)
                           else destinationQueues lb)
             in case queue_at queues key of
                  [] \<Rightarrow> (Inl UndefinedBehaviour, lb\<lparr>destinationQueues := queues\<rparr>)
                | destination # rest \<Rightarrow>
                    (Inr destination,
                     lb\<lparr>destinationQueues := queues(key \<mapsto> rest @ [destination])\<rparr>)))"

text \<open>
  Successive \<open>balanceLoad\<close> calls on one round-robin balancer, one per request of the
  list, over an unchanged store: the results in call order and the balancer after the
  last call.
\<close>

fun RoundRobin_calls ::
  "heap \<Rightarrow> RoundRobinLoadBalancer \<Rightarrow> Request list \<Rightarrow> (error + dest_ptr) list \<times> RoundRobinLoadBalancer" where
  "RoundRobin_calls h lb [] = ([], lb)"
| "RoundRobin_calls h lb (request # requests) =
     (case RoundRobin_balanceLoad h lb request of (r, lb') \<Rightarrow>
        (case RoundRobin_calls h lb' requests of (rs, lb'') \<Rightarrow> (r # rs, lb'')))"

text \<open>
  The calls on one balancer may be for different request types. \<open>results_for key\<close>
  keeps, in call order, the results of the calls whose request has the type \<open>key\<close>.
\<close>

definition results_for :: "string \<Rightarrow> Request list \<Rightarrow> 'a list \<Rightarrow> 'a list" where
  "results_for key requests results =
     map snd (filter (\<lambda>(request, result). requestType request = key) (zip requests results))"

subsection \<open>The virtual call\<close>

text \<open>
  \<^verbatim>\<open>lb->balanceLoad(request)\<close> dispatches on the class of the object. The result comes
  with the whole state after the call: the store, which no override writes to, and
  the balancer object.
\<close>

datatype lb_object =
  LeastConnectionLB LoadBalancer
| RoutedLB LoadBalancer
| RoundRobinLB RoundRobinLoadBalancer

fun balanceLoad ::
  "(string \<Rightarrow> size_t) \<Rightarrow> heap \<Rightarrow> lb_object \<Rightarrow> Request \<Rightarrow> (error + dest_ptr) \<times> heap \<times> lb_object" where
  "balanceLoad hash h (LeastConnectionLB lb) request =
     (LeastConnection_balanceLoad h lb request, h, LeastConnectionLB lb)"
| "balanceLoad hash h (RoutedLB lb) request =
     (Routed_balanceLoad hash h lb request, h, RoutedLB lb)"
| "balanceLoad hash h (RoundRobinLB lb) request =
     (case RoundRobin_balanceLoad h lb request of (r, lb') \<Rightarrow> (r, h, RoundRobinLB lb'))"

text \<open>The base-class part of a balancer object.\<close>

fun serviceMap_of :: "lb_object \<Rightarrow> string \<rightharpoonup> service_ptr" where
  "serviceMap_of (LeastConnectionLB lb) = serviceMap lb"
| "serviceMap_of (RoutedLB lb) = serviceMap lb"
| "serviceMap_of (RoundRobinLB lb) = serviceMap lb"

text \<open>
  \<open>destinationQueues\<close> is private and starts empty, and \<open>balanceLoad\<close> stores a queue
  only after the emptiness check of the candidate set: no stored queue is empty.
\<close>

definition queues_nonempty :: "RoundRobinLoadBalancer \<Rightarrow> bool" where
  "queues_nonempty lb \<longleftrightarrow> (\<forall>key q. destinationQueues lb key = Some q \<longrightarrow> q \<noteq> [])"

section \<open>The objects set up by main\<close>

text \<open>
  \<^verbatim>\<open>main\<close> creates one Service, three Destinations with thresholds 12, 20 and 15, adds
  them to the Service, and registers the Service under \<^verbatim>\<open>"http"\<close> with each balancer.
  The Destinations are placed at the addresses 1, 2 and 3, the Service at address 10.
  The request is the one \<^verbatim>\<open>main\<close> builds for the input \<^verbatim>\<open>1\<close>.
\<close>

definition main_service :: Service where
  "main_service =
     addDestination (addDestination (addDestination \<lparr>name = [], destinations = []\<rparr> 1) 2) 3"

definition main_heap :: heap where
  "main_heap =
     \<lparr>dest_heap = [1 \<mapsto> Destination_new ''192.168.0.1'' 12,
                   2 \<mapsto> Destination_new ''192.168.0.2'' 20,
                   3 \<mapsto> Destination_new ''192.168.0.3'' 15],
      service_heap = [10 \<mapsto> main_service]\<rparr>"

definition main_leastConnectionLB :: LoadBalancer where
  "main_leastConnectionLB = registerService \<lparr>serviceMap = Map.empty\<rparr> ''http'' 10"

definition main_routedLB :: LoadBalancer where
  "main_routedLB = registerService \<lparr>serviceMap = Map.empty\<rparr> ''http'' 10"

definition main_roundRobinLB :: RoundRobinLoadBalancer where
  "main_roundRobinLB =
     registerService \<lparr>serviceMap = Map.empty, destinationQueues = Map.empty\<rparr> ''http'' 10"

definition main_request :: Request where
  "main_request = \<lparr>id = ''REQ1'', requestType = ''http'', parameters = Map.empty\<rparr>"

section \<open>Signed 32-bit arithmetic under the guards of the code\<close>

lemma sint_succ_below:
  fixes a b :: int32
  assumes "a <s b"
  shows "sint (a + 1) = sint a + 1"
proof -
  have "sint a < sint b" using assms by (simp add: word_sless_alt)
  moreover have "sint b < 2 ^ 31" using sint_lt [of b] by simp
  moreover have "- (2 ^ 31) \<le> sint a" using sint_ge [of a] by simp
  ultimately have "signed_take_bit 31 (sint a + 1) = sint a + 1"
    by (intro signed_take_bit_int_eq_self) simp_all
  then show ?thesis by (simp add: sint_word_add)
qed

lemma sint_pred_positive:
  fixes a :: int32
  assumes "0 <s a"
  shows "sint (a - 1) = sint a - 1"
proof -
  have "0 < sint a" using assms by (simp add: word_sless_alt)
  moreover have "sint a < 2 ^ 31" using sint_lt [of a] by simp
  ultimately have "signed_take_bit 31 (sint a - 1) = sint a - 1"
    by (intro signed_take_bit_int_eq_self) simp_all
  then show ?thesis by (simp add: sint_word_diff)
qed

section \<open>Destination: admission and release\<close>

lemma acceptRequest_in_range:
  assumes "load_in_range d"
  shows "load_in_range (fst (snd (acceptRequest d request)))"
proof (cases "requestsBeingServed d <s threshold d")
  case True
  then have "sint (requestsBeingServed d + 1) = sint (requestsBeingServed d) + 1"
    by (rule sint_succ_below)
  moreover have "sint (requestsBeingServed d) < sint (threshold d)"
    using True by (simp add: word_sless_alt)
  moreover have "0 \<le> sint (requestsBeingServed d)"
    using assms by (simp add: load_in_range_def word_sle_eq)
  ultimately show ?thesis
    using True by (simp add: acceptRequest_def load_in_range_def word_sle_eq Let_def)
next
  case False
  then show ?thesis using assms by (simp add: acceptRequest_def)
qed

lemma completeRequest_in_range:
  assumes "load_in_range d"
  shows "load_in_range (fst (completeRequest d))"
proof (cases "0 <s requestsBeingServed d")
  case True
  then have "sint (requestsBeingServed d - 1) = sint (requestsBeingServed d) - 1"
    by (rule sint_pred_positive)
  moreover have "0 < sint (requestsBeingServed d)"
    using True by (simp add: word_sless_alt)
  moreover have "sint (requestsBeingServed d) \<le> sint (threshold d)"
    using assms by (simp add: load_in_range_def word_sle_eq)
  ultimately show ?thesis
    using True by (simp add: completeRequest_def load_in_range_def word_sle_eq Let_def)
next
  case False
  then show ?thesis using assms by (simp add: completeRequest_def)
qed

lemma run_calls_in_range:
  "load_in_range d \<Longrightarrow> load_in_range (fst (run_calls d cs))"
proof (induction cs arbitrary: d)
  case Nil
  then show ?case by simp
next
  case (Cons c cs)
  show ?case
  proof (cases c)
    case (CallAccept request)
    obtain b d' out where acc: "acceptRequest d request = (b, d', out)"
      by (cases "acceptRequest d request") auto
    then have "load_in_range d'"
      using acceptRequest_in_range [OF Cons.prems, of request] by simp
    then have "load_in_range (fst (run_calls d' cs))" by (rule Cons.IH)
    then show ?thesis using CallAccept acc by (auto split: prod.splits)
  next
    case CallComplete
    obtain d' out where com: "completeRequest d = (d', out)"
      by (cases "completeRequest d") auto
    then have "load_in_range d'"
      using completeRequest_in_range [OF Cons.prems] by simp
    then have "load_in_range (fst (run_calls d' cs))" by (rule Cons.IH)
    then show ?thesis using CallComplete com by simp
  qed
qed

lemma Destination_new_in_range:
  "0 <s thresh \<Longrightarrow> load_in_range (Destination_new ip thresh)"
  by (simp add: Destination_new_def load_in_range_def word_sle_eq word_sless_alt)

text \<open>
  Claim C1. \<open>acceptRequest\<close> returns true and raises the load by exactly one (as a
  signed 32-bit value, with no wrap-around) when the load is below the threshold, and
  otherwise returns false and leaves the object as it was. The function is total and
  its result type has no error component: overload is reported by the boolean alone.
\<close>

theorem acceptRequest_accepts_below_threshold:
  "(requestsBeingServed d <s threshold d \<longrightarrow>
      fst (acceptRequest d request) = True \<and>
      sint (requestsBeingServed (fst (snd (acceptRequest d request)))) =
        sint (requestsBeingServed d) + 1 \<and>
      ipAddress (fst (snd (acceptRequest d request))) = ipAddress d \<and>
      threshold (fst (snd (acceptRequest d request))) = threshold d) \<and>
   (\<not> requestsBeingServed d <s threshold d \<longrightarrow>
      fst (acceptRequest d request) = False \<and>
      fst (snd (acceptRequest d request)) = d)"
  by (simp add: acceptRequest_def Let_def sint_succ_below)

theorem acceptRequest_accepts_below_threshold_witness:
  "requestsBeingServed (Destination_new ''192.168.0.1'' 1) <s threshold (Destination_new ''192.168.0.1'' 1) \<and>
   fst (acceptRequest (Destination_new ''192.168.0.1'' 1)
          \<lparr>id = ''REQ1'', requestType = ''http'', parameters = Map.empty\<rparr>) = True \<and>
   sint (requestsBeingServed (fst (snd (acceptRequest (Destination_new ''192.168.0.1'' 1)
          \<lparr>id = ''REQ1'', requestType = ''http'', parameters = Map.empty\<rparr>)))) = 1 \<and>
   \<not> requestsBeingServed (Destination_new ''192.168.0.1'' 0) <s threshold (Destination_new ''192.168.0.1'' 0) \<and>
   fst (acceptRequest (Destination_new ''192.168.0.1'' 0)
          \<lparr>id = ''REQ1'', requestType = ''http'', parameters = Map.empty\<rparr>) = False \<and>
   fst (snd (acceptRequest (Destination_new ''192.168.0.1'' 0)
          \<lparr>id = ''REQ1'', requestType = ''http'', parameters = Map.empty\<rparr>)) = Destination_new ''192.168.0.1'' 0"
  using acceptRequest_accepts_below_threshold
          [of "Destination_new ''192.168.0.1'' 1"
              "\<lparr>id = ''REQ1'', requestType = ''http'', parameters = Map.empty\<rparr>"]
        acceptRequest_accepts_below_threshold
          [of "Destination_new ''192.168.0.1'' 0"
              "\<lparr>id = ''REQ1'', requestType = ''http'', parameters = Map.empty\<rparr>"]
  by (simp add: Destination_new_def word_sless_alt)

text \<open>
  Claim C3. \<open>completeRequest\<close> lowers the load by exactly one when it is positive
  and leaves the object unchanged when the load is 0, so that a repeated release at
  load 0 changes nothing either. The function is total and has no error result.
\<close>

theorem completeRequest_floor_clamped:
  "(0 <s requestsBeingServed d \<longrightarrow>
      sint (requestsBeingServed (fst (completeRequest d))) = sint (requestsBeingServed d) - 1 \<and>
      ipAddress (fst (completeRequest d)) = ipAddress d \<and>
      threshold (fst (completeRequest d)) = threshold d) \<and>
   (requestsBeingServed d = 0 \<longrightarrow>
      fst (completeRequest d) = d \<and>
      fst (completeRequest (fst (completeRequest d))) = d)"
  by (simp add: completeRequest_def Let_def sint_pred_positive)

text \<open>
  Claim C2. A Destination constructed with a positive threshold starts at load 0, and
  after every sequence of \<open>acceptRequest\<close> and \<open>completeRequest\<close> calls its load is
  still between 0 and the threshold. With threshold 1, two \<open>acceptRequest\<close> calls in a
  row, with no \<open>completeRequest\<close> between them, return true and then false.
\<close>

theorem load_invariant_preserved:
  "(0 <s thresh \<longrightarrow> load_in_range (fst (run_calls (Destination_new ip thresh) cs))) \<and>
   snd (run_calls (Destination_new ip 1) [CallAccept r1, CallAccept r2]) = [True, False]"
proof
  show "0 <s thresh \<longrightarrow> load_in_range (fst (run_calls (Destination_new ip thresh) cs))"
    by (simp add: Destination_new_in_range run_calls_in_range)
  show "snd (run_calls (Destination_new ip 1) [CallAccept r1, CallAccept r2]) = [True, False]"
    by (simp add: acceptRequest_def Destination_new_def word_sless_alt Let_def)
qed

lemma run_calls_rejecting:
  assumes "threshold d \<le>s requestsBeingServed d" and "\<not> 0 <s requestsBeingServed d"
  shows "fst (run_calls d cs) = d \<and> set (snd (run_calls d cs)) \<subseteq> {False}"
proof (induction cs)
  case Nil
  then show ?case by simp
next
  case (Cons c cs)
  have rej: "acceptRequest d request = (False, d, [Rejected (ipAddress d)])" for request
    using assms(1) by (simp add: acceptRequest_def word_sless_alt word_sle_eq)
  have com: "completeRequest d = (d, [])"
    using assms(2) by (simp add: completeRequest_def)
  show ?case
    using Cons.IH rej com by (cases c) (auto split: prod.splits)
qed

text \<open>
  Claim C10. The constructor accepts a threshold that is zero or negative and stores
  it unchecked. For such a Destination \<open>acceptRequest\<close> returns false for every
  request and the load stays 0: after any sequence of calls the object is the one that
  was constructed, and every \<open>acceptRequest\<close> of the sequence returned false.
\<close>

theorem nonpositive_threshold_rejects:
  assumes "thresh \<le>s 0"
  shows "threshold (Destination_new ip thresh) = thresh \<and>
         requestsBeingServed (Destination_new ip thresh) = 0 \<and>
         acceptRequest (Destination_new ip thresh) request =
           (False, Destination_new ip thresh, [Rejected ip]) \<and>
         fst (run_calls (Destination_new ip thresh) cs) = Destination_new ip thresh \<and>
         set (snd (run_calls (Destination_new ip thresh) cs)) \<subseteq> {False}"
proof -
  let ?d = "Destination_new ip thresh"
  have a: "threshold ?d \<le>s requestsBeingServed ?d"
    using assms by (simp add: Destination_new_def)
  have b: "\<not> 0 <s requestsBeingServed ?d"
    by (simp add: Destination_new_def)
  have "acceptRequest ?d request = (False, ?d, [Rejected ip])"
    using a by (simp add: acceptRequest_def word_sless_alt word_sle_eq Destination_new_def)
  then show ?thesis
    using run_calls_rejecting [OF a b, of cs] by (simp add: Destination_new_def)
qed

theorem nonpositive_threshold_rejects_witness:
  "(- 3 :: int32) \<le>s 0 \<and>
   acceptRequest (Destination_new ''192.168.0.9'' (- 3))
       \<lparr>id = ''REQ7'', requestType = ''http'', parameters = Map.empty\<rparr> =
     (False, Destination_new ''192.168.0.9'' (- 3), [Rejected ''192.168.0.9'']) \<and>
   run_calls (Destination_new ''192.168.0.9'' (- 3))
       [CallAccept \<lparr>id = ''REQ7'', requestType = ''http'', parameters = Map.empty\<rparr>,
        CallComplete,
        CallAccept \<lparr>id = ''REQ8'', requestType = ''http'', parameters = Map.empty\<rparr>] =
     (Destination_new ''192.168.0.9'' (- 3), [False, False])"
proof -
  have h: "(- 3 :: int32) \<le>s 0" by (simp add: word_sle_eq)
  show ?thesis
    using h nonpositive_threshold_rejects [OF h, of "''192.168.0.9''"
        "\<lparr>id = ''REQ7'', requestType = ''http'', parameters = Map.empty\<rparr>"
        "[CallAccept \<lparr>id = ''REQ7'', requestType = ''http'', parameters = Map.empty\<rparr>,
          CallComplete,
          CallAccept \<lparr>id = ''REQ8'', requestType = ''http'', parameters = Map.empty\<rparr>]"]
    by (simp add: acceptRequest_def completeRequest_def Destination_new_def word_sless_alt)
qed

theorem completeRequest_floor_clamped_witness:
  "0 <s requestsBeingServed \<lparr>ipAddress = ''192.168.0.2'', requestsBeingServed = 2, threshold = 20\<rparr> \<and>
   sint (requestsBeingServed (fst (completeRequest
      \<lparr>ipAddress = ''192.168.0.2'', requestsBeingServed = 2, threshold = 20\<rparr>))) = 1 \<and>
   requestsBeingServed (Destination_new ''192.168.0.2'' 20) = 0 \<and>
   fst (completeRequest (Destination_new ''192.168.0.2'' 20)) = Destination_new ''192.168.0.2'' 20"
  using completeRequest_floor_clamped
          [of "\<lparr>ipAddress = ''192.168.0.2'', requestsBeingServed = 2, threshold = 20\<rparr>"]
        completeRequest_floor_clamped [of "Destination_new ''192.168.0.2'' 20"]
  by (simp add: Destination_new_def word_sless_alt)

theorem load_invariant_preserved_witness:
  "(0 :: int32) <s 2 \<and>
   load_in_range (fst (run_calls (Destination_new ''192.168.0.1'' 2)
     [CallAccept \<lparr>id = ''REQ1'', requestType = ''http'', parameters = Map.empty\<rparr>,
      CallAccept \<lparr>id = ''REQ2'', requestType = ''http'', parameters = Map.empty\<rparr>,
      CallAccept \<lparr>id = ''REQ3'', requestType = ''http'', parameters = Map.empty\<rparr>,
      CallComplete])) \<and>
   sint (requestsBeingServed (fst (run_calls (Destination_new ''192.168.0.1'' 2)
     [CallAccept \<lparr>id = ''REQ1'', requestType = ''http'', parameters = Map.empty\<rparr>,
      CallAccept \<lparr>id = ''REQ2'', requestType = ''http'', parameters = Map.empty\<rparr>,
      CallAccept \<lparr>id = ''REQ3'', requestType = ''http'', parameters = Map.empty\<rparr>,
      CallComplete]))) = 1"
proof -
  have h: "(0 :: int32) <s 2" by (simp add: word_sless_alt)
  show ?thesis
    using h load_invariant_preserved [of 2 "''192.168.0.1''"
     "[CallAccept \<lparr>id = ''REQ1'', requestType = ''http'', parameters = Map.empty\<rparr>,
      CallAccept \<lparr>id = ''REQ2'', requestType = ''http'', parameters = Map.empty\<rparr>,
      CallAccept \<lparr>id = ''REQ3'', requestType = ''http'', parameters = Map.empty\<rparr>,
      CallComplete]"]
    by (simp add: acceptRequest_def completeRequest_def Destination_new_def word_sless_alt)
qed

section \<open>The balancers\<close>

subsection \<open>Round robin: the queue as a rotation\<close>

lemma main_service_destinations: "destinations main_service = [1, 2, 3]"
  by (simp add: main_service_def addDestination_def)

lemma fill_queue_from: "foldl (\<lambda>q dest. q @ [dest]) acc ds = acc @ ds"
  by (induction ds arbitrary: acc) simp_all

lemma fill_queue_eq: "fill_queue ds = ds"
  by (simp add: fill_queue_def fill_queue_from)

lemma RoundRobin_balanceLoad_stored:
  assumes "getDestinations h lb request = Inr ds" and "ds \<noteq> []"
    and "destinationQueues lb (requestType request) = Some (p # rest)"
  shows "RoundRobin_balanceLoad h lb request =
           (Inr p, lb\<lparr>destinationQueues :=
                        (destinationQueues lb)(requestType request \<mapsto> rest @ [p])\<rparr>)"
  using assms by (simp add: RoundRobin_balanceLoad_def queue_at_def)

lemma RoundRobin_balanceLoad_fresh:
  assumes "getDestinations h lb request = Inr (p # rest)"
    and "destinationQueues lb (requestType request) = None"
  shows "RoundRobin_balanceLoad h lb request =
           (Inr p, lb\<lparr>destinationQueues :=
                        (destinationQueues lb)(requestType request \<mapsto> rest @ [p])\<rparr>)"
  using assms by (simp add: RoundRobin_balanceLoad_def queue_at_def fill_queue_eq)

lemma RoundRobin_calls_stored:
  assumes "\<forall>r \<in> set requests. requestType r = key"
    and "serviceMap lb key = Some sp" and "service_heap h sp = Some s"
    and "destinations s \<noteq> []"
    and "destinationQueues lb key = Some q" and "q \<noteq> []"
  shows "fst (RoundRobin_calls h lb requests) =
           map (\<lambda>k. Inr (q ! (k mod length q))) [0..<length requests]"
  using assms
proof (induction requests arbitrary: lb q)
  case Nil
  then show ?case by simp
next
  case (Cons r rs)
  obtain p rest where q: "q = p # rest"
    using Cons.prems(6) by (cases q) auto
  have key: "requestType r = key" using Cons.prems(1) by simp
  have gd: "getDestinations h lb r = Inr (destinations s)"
    using Cons.prems(2,3) key by (simp add: getDestinations_def)
  let ?lb' = "lb\<lparr>destinationQueues := (destinationQueues lb)(key \<mapsto> rest @ [p])\<rparr>"
  have step: "RoundRobin_balanceLoad h lb r = (Inr p, ?lb')"
    using RoundRobin_balanceLoad_stored [OF gd Cons.prems(4)] Cons.prems(5) q key by simp
  have "fst (RoundRobin_calls h ?lb' rs) =
          map (\<lambda>k. Inr ((rest @ [p]) ! (k mod length (rest @ [p])))) [0..<length rs]"
    using Cons.prems by (intro Cons.IH) simp_all
  also have "\<dots> = map (\<lambda>k. Inr (q ! (Suc k mod length q))) [0..<length rs]"
  proof (rule map_cong [OF refl])
    fix k
    have "rotate1 q ! (k mod length q) = q ! (Suc (k mod length q) mod length q)"
      by (rule nth_rotate1) (simp add: q)
    then show "Inr ((rest @ [p]) ! (k mod length (rest @ [p]))) = Inr (q ! (Suc k mod length q))"
      by (simp add: q mod_Suc_eq)
  qed
  finally have rest_eq: "fst (RoundRobin_calls h ?lb' rs) =
      map (\<lambda>k. Inr (q ! (Suc k mod length q))) [0..<length rs]" .
  have "fst (RoundRobin_calls h lb (r # rs)) = Inr p # fst (RoundRobin_calls h ?lb' rs)"
    using step by (simp split: prod.splits)
  also have "\<dots> = map (\<lambda>k. Inr (q ! (k mod length q))) [0..<Suc (length rs)]"
    unfolding rest_eq map_upt_Suc by (simp add: q)
  finally show ?case by simp
qed

lemma RoundRobin_calls_fresh:
  assumes "\<forall>r \<in> set requests. requestType r = key"
    and "serviceMap lb key = Some sp" and "service_heap h sp = Some s"
    and "destinations s = ds" and "ds \<noteq> []"
    and "destinationQueues lb key = None"
  shows "fst (RoundRobin_calls h lb requests) =
           map (\<lambda>k. Inr (ds ! (k mod length ds))) [0..<length requests]"
proof (cases requests)
  case Nil
  then show ?thesis by simp
next
  case (Cons r rs)
  obtain p rest where ds: "ds = p # rest"
    using assms(5) by (cases ds) auto
  have key: "requestType r = key" using assms(1) Cons by simp
  have gd: "getDestinations h lb r = Inr (p # rest)"
    using assms(2,3,4) key ds by (simp add: getDestinations_def)
  let ?lb' = "lb\<lparr>destinationQueues := (destinationQueues lb)(key \<mapsto> rest @ [p])\<rparr>"
  have step: "RoundRobin_balanceLoad h lb r = (Inr p, ?lb')"
    using RoundRobin_balanceLoad_fresh [OF gd] assms(6) key by simp
  have "fst (RoundRobin_calls h ?lb' rs) =
          map (\<lambda>k. Inr ((rest @ [p]) ! (k mod length (rest @ [p])))) [0..<length rs]"
    using assms Cons by (intro RoundRobin_calls_stored [where sp = sp and s = s and key = key]) simp_all
  also have "\<dots> = map (\<lambda>k. Inr (ds ! (Suc k mod length ds))) [0..<length rs]"
  proof (rule map_cong [OF refl])
    fix k
    have "rotate1 ds ! (k mod length ds) = ds ! (Suc (k mod length ds) mod length ds)"
      by (rule nth_rotate1) (simp add: ds)
    then show "Inr ((rest @ [p]) ! (k mod length (rest @ [p]))) = Inr (ds ! (Suc k mod length ds))"
      by (simp add: ds mod_Suc_eq)
  qed
  finally have rest_eq: "fst (RoundRobin_calls h ?lb' rs) =
      map (\<lambda>k. Inr (ds ! (Suc k mod length ds))) [0..<length rs]" .
  have "fst (RoundRobin_calls h lb (r # rs)) = Inr p # fst (RoundRobin_calls h ?lb' rs)"
    using step by (simp split: prod.splits)
  also have "\<dots> = map (\<lambda>k. Inr (ds ! (k mod length ds))) [0..<Suc (length rs)]"
    unfolding rest_eq map_upt_Suc by (simp add: ds)
  finally show ?thesis using Cons by simp
qed

subsection \<open>Least connection: the first minimum\<close>

lemma min_element_from_first_minimum:
  assumes "\<forall>q \<in> set (s # xs). dest_heap h q = Some (obj q)"
  shows "\<exists>pre p post.
           min_element_from (fewer_requests h) s xs = Some p \<and>
           s # xs = pre @ p # post \<and>
           (\<forall>q \<in> set pre. requestsBeingServed (obj p) <s requestsBeingServed (obj q)) \<and>
           (\<forall>q \<in> set post. requestsBeingServed (obj p) \<le>s requestsBeingServed (obj q))"
  using assms
proof (induction xs arbitrary: s)
  case Nil
  show ?case
    by (rule exI [of _ "[]"], rule exI [of _ s], rule exI [of _ "[]"]) simp
next
  case (Cons x xs)
  let ?k = "\<lambda>q. sint (requestsBeingServed (obj q))"
  have vs: "dest_heap h s = Some (obj s)" and vx: "dest_heap h x = Some (obj x)"
    and vxs: "\<forall>q \<in> set xs. dest_heap h q = Some (obj q)"
    using Cons.prems by simp_all
  have cmp: "fewer_requests h x s = Some (?k x < ?k s)"
    using vs vx by (simp add: fewer_requests_def word_sless_alt)
  show ?case
  proof (cases "?k x < ?k s")
    case True
    have "\<forall>q \<in> set (x # xs). dest_heap h q = Some (obj q)" using vx vxs by simp
    from Cons.IH [OF this] obtain pre p post where
      r: "min_element_from (fewer_requests h) x xs = Some p" and
      d: "x # xs = pre @ p # post" and
      a: "\<forall>q \<in> set pre. ?k p < ?k q" and b: "\<forall>q \<in> set post. ?k p \<le> ?k q"
      by (auto simp: word_sless_alt word_sle_eq)
    have "x \<in> set (pre @ p # post)" using d by (metis list.set_intros(1))
    then have "?k p \<le> ?k x" using a b by auto
    then have "?k p < ?k s" using True by simp
    then have "\<forall>q \<in> set (s # pre). ?k p < ?k q" using a by simp
    moreover have "s # x # xs = (s # pre) @ p # post" using d by simp
    moreover have "min_element_from (fewer_requests h) s (x # xs) = Some p"
      using cmp True r by simp
    ultimately show ?thesis using b
      unfolding word_sless_alt word_sle_eq by blast
  next
    case False
    have "\<forall>q \<in> set (s # xs). dest_heap h q = Some (obj q)" using vs vxs by simp
    from Cons.IH [OF this] obtain pre p post where
      r: "min_element_from (fewer_requests h) s xs = Some p" and
      d: "s # xs = pre @ p # post" and
      a: "\<forall>q \<in> set pre. ?k p < ?k q" and b: "\<forall>q \<in> set post. ?k p \<le> ?k q"
      by (auto simp: word_sless_alt word_sle_eq)
    have res: "min_element_from (fewer_requests h) s (x # xs) = Some p"
      using cmp False r by simp
    show ?thesis
    proof (cases pre)
      case Nil
      then have "p = s" and "post = xs" using d by simp_all
      then have "\<forall>q \<in> set (x # xs). ?k p \<le> ?k q" using b False by simp
      moreover have "s # x # xs = [] @ p # (x # xs)" using \<open>p = s\<close> by simp
      moreover have "\<forall>q \<in> set ([] :: dest_ptr list). ?k p < ?k q" by simp
      ultimately show ?thesis using res
        unfolding word_sless_alt word_sle_eq by blast
    next
      case (Cons y pre')
      then have "y = s" and xs: "xs = pre' @ p # post" using d by simp_all
      then have "?k p < ?k s" using a Cons by simp
      then have "?k p < ?k x" using False by simp
      then have "\<forall>q \<in> set (s # x # pre'). ?k p < ?k q"
        using a Cons \<open>y = s\<close> by simp
      moreover have "s # x # xs = (s # x # pre') @ p # post" using xs by simp
      ultimately show ?thesis using res b
        unfolding word_sless_alt word_sle_eq by blast
    qed
  qed
qed

text \<open>
  Claim C4. When the candidate set is not empty (and its pointers refer to Destinations),
  \<open>LeastConnectionLoadBalancer::balanceLoad\<close> returns a candidate whose load is at most
  the load of every candidate, and every candidate that comes before it in the
  iteration order of the set has a strictly larger load: among the candidates of
  minimal load it is the first one met.
\<close>

theorem LeastConnection_first_minimum:
  assumes "getDestinations h lb request = Inr ds" and "ds \<noteq> []"
    and "\<forall>q \<in> set ds. dest_heap h q = Some (obj q)"
  shows "\<exists>pre p post.
           LeastConnection_balanceLoad h lb request = Inr p \<and>
           ds = pre @ p # post \<and>
           (\<forall>q \<in> set ds. requestsBeingServed (obj p) \<le>s requestsBeingServed (obj q)) \<and>
           (\<forall>q \<in> set pre. requestsBeingServed (obj p) <s requestsBeingServed (obj q))"
proof -
  obtain s xs where ds: "ds = s # xs" using assms(2) by (cases ds) auto
  from min_element_from_first_minimum [of s xs h obj] assms(3) ds
  obtain pre p post where
    r: "min_element_from (fewer_requests h) s xs = Some p" and
    d: "s # xs = pre @ p # post" and
    a: "\<forall>q \<in> set pre. requestsBeingServed (obj p) <s requestsBeingServed (obj q)" and
    b: "\<forall>q \<in> set post. requestsBeingServed (obj p) \<le>s requestsBeingServed (obj q)"
    by blast
  have "LeastConnection_balanceLoad h lb request = Inr p"
    using assms(1) ds r by (simp add: LeastConnection_balanceLoad_def)
  moreover have "ds = pre @ p # post" using ds d by simp
  moreover have "\<forall>q \<in> set ds. requestsBeingServed (obj p) \<le>s requestsBeingServed (obj q)"
  proof
    fix q assume "q \<in> set ds"
    then have "q \<in> set pre \<or> q = p \<or> q \<in> set post" using ds d by auto
    then show "requestsBeingServed (obj p) \<le>s requestsBeingServed (obj q)"
      using a b by (auto simp: word_sless_alt word_sle_eq)
  qed
  ultimately show ?thesis using a by blast
qed

subsection \<open>The two errors\<close>

lemma LeastConnection_unknown:
  "LeastConnection_balanceLoad h lb request = Inl UnknownRequestTypeError \<longleftrightarrow>
     serviceMap lb (requestType request) = None"
  by (auto simp: LeastConnection_balanceLoad_def getDestinations_def
           split: option.splits sum.splits)

lemma LeastConnection_no_candidates:
  "LeastConnection_balanceLoad h lb request = Inl NoCandidatesError \<longleftrightarrow>
     (\<exists>sp s. serviceMap lb (requestType request) = Some sp \<and> service_heap h sp = Some s \<and>
             destinations s = [])"
  by (auto simp: LeastConnection_balanceLoad_def getDestinations_def
           split: option.splits sum.splits)

lemma Routed_unknown:
  "Routed_balanceLoad hash h lb request = Inl UnknownRequestTypeError \<longleftrightarrow>
     serviceMap lb (requestType request) = None"
  by (auto simp: Routed_balanceLoad_def getDestinations_def Let_def
           split: option.splits sum.splits)

lemma Routed_no_candidates:
  "Routed_balanceLoad hash h lb request = Inl NoCandidatesError \<longleftrightarrow>
     (\<exists>sp s. serviceMap lb (requestType request) = Some sp \<and> service_heap h sp = Some s \<and>
             destinations s = [])"
  by (auto simp: Routed_balanceLoad_def getDestinations_def Let_def
           split: option.splits sum.splits)

lemma RoundRobin_unknown:
  "fst (RoundRobin_balanceLoad h lb request) = Inl UnknownRequestTypeError \<longleftrightarrow>
     serviceMap lb (requestType request) = None"
  by (auto simp: RoundRobin_balanceLoad_def getDestinations_def Let_def
           split: option.splits sum.splits list.splits)

lemma RoundRobin_no_candidates:
  "fst (RoundRobin_balanceLoad h lb request) = Inl NoCandidatesError \<longleftrightarrow>
     (\<exists>sp s. serviceMap lb (requestType request) = Some sp \<and> service_heap h sp = Some s \<and>
             destinations s = [])"
  by (auto simp: RoundRobin_balanceLoad_def getDestinations_def Let_def
           split: option.splits sum.splits list.splits)

lemma RoundRobin_failure_keeps_state:
  assumes "fst (RoundRobin_balanceLoad h lb request) = Inl (runtime_error msg)"
  shows "snd (RoundRobin_balanceLoad h lb request) = lb"
  using assms
  by (auto simp: RoundRobin_balanceLoad_def Let_def
           split: option.splits sum.splits list.splits if_splits)

lemma balanceLoad_RoundRobin_fst:
  "fst (balanceLoad hash h (RoundRobinLB lb) request) = fst (RoundRobin_balanceLoad h lb request)"
  by (simp split: prod.splits)

lemma balanceLoad_RoundRobin_snd:
  "snd (balanceLoad hash h (RoundRobinLB lb) request) =
     (h, RoundRobinLB (snd (RoundRobin_balanceLoad h lb request)))"
  by (simp split: prod.splits)

lemma balanceLoad_unknown:
  "fst (balanceLoad hash h lb request) = Inl UnknownRequestTypeError \<longleftrightarrow>
     serviceMap_of lb (requestType request) = None"
proof (cases lb)
  case (LeastConnectionLB l)
  then show ?thesis by (simp add: LeastConnection_unknown)
next
  case (RoutedLB l)
  then show ?thesis by (simp add: Routed_unknown)
next
  case (RoundRobinLB l)
  show ?thesis
    unfolding RoundRobinLB balanceLoad_RoundRobin_fst
    by (simp add: RoundRobin_unknown)
qed

lemma balanceLoad_no_candidates:
  "fst (balanceLoad hash h lb request) = Inl NoCandidatesError \<longleftrightarrow>
     (\<exists>sp s. serviceMap_of lb (requestType request) = Some sp \<and> service_heap h sp = Some s \<and>
             destinations s = [])"
proof (cases lb)
  case (LeastConnectionLB l)
  then show ?thesis by (simp add: LeastConnection_no_candidates)
next
  case (RoutedLB l)
  then show ?thesis by (simp add: Routed_no_candidates)
next
  case (RoundRobinLB l)
  show ?thesis
    unfolding RoundRobinLB balanceLoad_RoundRobin_fst
    by (simp add: RoundRobin_no_candidates)
qed

subsection \<open>A non-empty candidate set yields a Destination\<close>

lemma LeastConnection_returns:
  assumes "getDestinations h lb request = Inr ds" and "ds \<noteq> []"
    and "\<forall>q \<in> set ds. dest_heap h q \<noteq> None"
  shows "\<exists>p \<in> set ds. LeastConnection_balanceLoad h lb request = Inr p"
proof -
  obtain s xs where ds: "ds = s # xs" using assms(2) by (cases ds) auto
  have "\<forall>q \<in> set (s # xs). dest_heap h q = Some (the (dest_heap h q))"
    using assms(3) ds by auto
  from min_element_from_first_minimum [OF this]
  obtain pre p post where
    r: "min_element_from (fewer_requests h) s xs = Some p" and d: "s # xs = pre @ p # post"
    by blast
  have "LeastConnection_balanceLoad h lb request = Inr p"
    using assms(1) ds r by (simp add: LeastConnection_balanceLoad_def)
  moreover have "p \<in> set ds" using ds d by simp
  ultimately show ?thesis by blast
qed

lemma Routed_returns:
  assumes "getDestinations h lb request = Inr ds" and "ds \<noteq> []"
  shows "\<exists>p \<in> set ds. Routed_balanceLoad hash h lb request = Inr p"
  using assms by (simp add: Routed_balanceLoad_def Let_def)

lemma RoundRobin_returns_front:
  assumes "getDestinations h lb request = Inr ds" and "ds \<noteq> []" and "queues_nonempty lb"
  shows "\<exists>p rest. fst (RoundRobin_balanceLoad h lb request) = Inr p \<and>
           (case destinationQueues lb (requestType request) of
              None \<Rightarrow> ds = p # rest
            | Some q \<Rightarrow> q = p # rest)"
proof (cases "destinationQueues lb (requestType request)")
  case None
  obtain p rest where ds: "ds = p # rest" using assms(2) by (cases ds) auto
  then have "fst (RoundRobin_balanceLoad h lb request) = Inr p"
    using RoundRobin_balanceLoad_fresh [of h lb request p rest] assms(1) None by simp
  then show ?thesis using None ds by simp
next
  case (Some q)
  then have "q \<noteq> []" using assms(3) by (simp add: queues_nonempty_def)
  then obtain p rest where q: "q = p # rest" by (cases q) auto
  then have "fst (RoundRobin_balanceLoad h lb request) = Inr p"
    using RoundRobin_balanceLoad_stored [OF assms(1,2), of p rest] Some by simp
  then show ?thesis using Some q by simp
qed

text \<open>
  Claim C8. For each of the three balancers, \<open>balanceLoad\<close> fails with the error of
  \<open>getDestinations\<close> (no service for the request type) exactly when \<open>serviceMap\<close> has
  no entry for the request type, and with the error \<^verbatim>\<open>"No destinations available."\<close>
  exactly when the registered Service has an empty candidate set. When the set is not
  empty no error is raised, whatever the loads and thresholds of the candidates are, so
  also when all of them are at their threshold: the least-connection and the routed
  balancer return one of the candidates, which is a Destination of the store, and the
  round-robin balancer returns the front of the queue stored for the request type, or
  the first candidate when no queue is stored yet.
\<close>

theorem balanceLoad_error_kinds:
  "(fst (balanceLoad hash h lb request) = Inl UnknownRequestTypeError \<longleftrightarrow>
      serviceMap_of lb (requestType request) = None) \<and>
   (fst (balanceLoad hash h lb request) = Inl NoCandidatesError \<longleftrightarrow>
      (\<exists>sp s. serviceMap_of lb (requestType request) = Some sp \<and> service_heap h sp = Some s \<and>
              destinations s = [])) \<and>
   (\<forall>l sp s. (lb = LeastConnectionLB l \<or> lb = RoutedLB l) \<and>
           serviceMap l (requestType request) = Some sp \<and> service_heap h sp = Some s \<and>
           destinations s \<noteq> [] \<and> (\<forall>q \<in> set (destinations s). dest_heap h q \<noteq> None) \<longrightarrow>
           (\<exists>p \<in> set (destinations s).
              fst (balanceLoad hash h lb request) = Inr p \<and> dest_heap h p \<noteq> None)) \<and>
   (\<forall>l sp s. lb = RoundRobinLB l \<and> queues_nonempty l \<and>
           serviceMap l (requestType request) = Some sp \<and> service_heap h sp = Some s \<and>
           destinations s \<noteq> [] \<longrightarrow>
           (\<exists>p rest. fst (balanceLoad hash h lb request) = Inr p \<and>
              (case destinationQueues l (requestType request) of
                 None \<Rightarrow> destinations s = p # rest
               | Some q \<Rightarrow> q = p # rest)))"
proof -
  have lc: "\<exists>p \<in> set (destinations s).
              fst (balanceLoad hash h lb request) = Inr p \<and> dest_heap h p \<noteq> None"
    if "lb = LeastConnectionLB l \<or> lb = RoutedLB l"
      and "serviceMap l (requestType request) = Some sp" and "service_heap h sp = Some s"
      and "destinations s \<noteq> []" and "\<forall>q \<in> set (destinations s). dest_heap h q \<noteq> None"
    for l sp s
  proof -
    have gd: "getDestinations h l request = Inr (destinations s)"
      using that(2,3) by (simp add: getDestinations_def)
    from that(1) show ?thesis
    proof
      assume "lb = LeastConnectionLB l"
      then show ?thesis
        using LeastConnection_returns [OF gd that(4,5)] that(5) by auto
    next
      assume "lb = RoutedLB l"
      then show ?thesis
        using Routed_returns [OF gd that(4), of hash] that(5) by auto
    qed
  qed
  have rr: "\<exists>p rest. fst (balanceLoad hash h lb request) = Inr p \<and>
              (case destinationQueues l (requestType request) of
                 None \<Rightarrow> destinations s = p # rest
               | Some q \<Rightarrow> q = p # rest)"
    if "lb = RoundRobinLB l" and "queues_nonempty l"
      and "serviceMap l (requestType request) = Some sp" and "service_heap h sp = Some s"
      and "destinations s \<noteq> []"
    for l sp s
  proof -
    have gd: "getDestinations h l request = Inr (destinations s)"
      using that(3,4) by (simp add: getDestinations_def)
    show ?thesis
      unfolding that(1) balanceLoad_RoundRobin_fst
      by (rule RoundRobin_returns_front [OF gd that(5,2)])
  qed
  show ?thesis
    using balanceLoad_unknown [of hash h lb request]
          balanceLoad_no_candidates [of hash h lb request] lc rr
    by blast
qed

text \<open>
  Claim C9. When \<open>balanceLoad\<close> fails with one of the two errors, the state after the
  call is the state before it, for each of the three balancers: the store (every
  Destination with its load, every Service with its candidate set) and the balancer
  object (\<open>serviceMap\<close> and, for round robin, \<open>destinationQueues\<close>).
\<close>

theorem balanceLoad_failure_atomic:
  assumes "fst (balanceLoad hash h lb request) = Inl UnknownRequestTypeError \<or>
           fst (balanceLoad hash h lb request) = Inl NoCandidatesError"
  shows "snd (balanceLoad hash h lb request) = (h, lb)"
proof (cases lb)
  case (LeastConnectionLB l)
  then show ?thesis by simp
next
  case (RoutedLB l)
  then show ?thesis by simp
next
  case (RoundRobinLB l)
  then obtain msg where "fst (RoundRobin_balanceLoad h l request) = Inl (runtime_error msg)"
    using assms by (auto simp only: balanceLoad_RoundRobin_fst)
  then have "snd (RoundRobin_balanceLoad h l request) = l"
    by (rule RoundRobin_failure_keeps_state)
  then show ?thesis using RoundRobinLB by (simp only: balanceLoad_RoundRobin_snd)
qed

text \<open>
  Claim C5. \<open>RoutedLoadBalancer::balanceLoad\<close> is determined by the request id and
  the candidate set alone: two calls whose requests carry the same id and that resolve
  to the same non-empty candidate set return the same Destination, whatever else differs
  (loads, parameters). That Destination is the element of the set, taken in its
  iteration order, at the index hash of the id modulo the number of candidates; the
  call leaves the store and the balancer as they were.
\<close>

theorem Routed_deterministic:
  assumes "getDestinations h lb r1 = Inr ds" and "getDestinations h' lb' r2 = Inr ds"
    and "ds \<noteq> []" and "id r2 = id r1"
  shows "Routed_balanceLoad hash h' lb' r2 = Routed_balanceLoad hash h lb r1 \<and>
         Routed_balanceLoad hash h lb r1 = Inr (ds ! (unat (hash (id r1)) mod length ds)) \<and>
         unat (hash (id r1)) mod length ds < length ds \<and>
         balanceLoad hash h (RoutedLB lb) r1 = (Routed_balanceLoad hash h lb r1, h, RoutedLB lb)"
  using assms by (simp add: Routed_balanceLoad_def Let_def)

text \<open>
  Claim C7, as amended. Once a queue \<open>q\<close> is stored for a request type, every later
  \<open>balanceLoad\<close> call for that request type made while the registered Service has at
  least one candidate returns the next element of \<open>q\<close>, whatever the candidates of
  the Service are by then: the store \<open>h'\<close> of the theorem is arbitrary apart from
  that. Destinations added since are never returned and removed ones still are.
\<close>

theorem RoundRobin_stale_rotation:
  assumes "\<forall>r \<in> set requests. requestType r = key"
    and "destinationQueues lb key = Some q" and "q \<noteq> []"
    and "serviceMap lb key = Some sp" and "service_heap h' sp = Some s'"
    and "destinations s' \<noteq> []"
  shows "fst (RoundRobin_calls h' lb requests) =
           map (\<lambda>k. Inr (q ! (k mod length q))) [0..<length requests]"
  using assms by (intro RoundRobin_calls_stored [where sp = sp and s = s' and key = key])

subsection \<open>Stored queues are never empty\<close>

text \<open>
  The property holds of a new balancer and is kept by \<open>registerService\<close> and by
  \<open>balanceLoad\<close>, the only operations of the class.
\<close>

lemma queues_nonempty_initial:
  "queues_nonempty \<lparr>serviceMap = m, destinationQueues = Map.empty\<rparr>"
  by (simp add: queues_nonempty_def)

lemma queues_nonempty_registerService:
  "queues_nonempty lb \<Longrightarrow> queues_nonempty (registerService lb rt service)"
  by (simp add: queues_nonempty_def registerService_def)

lemma queues_nonempty_balanceLoad:
  assumes "queues_nonempty lb"
  shows "queues_nonempty (snd (RoundRobin_balanceLoad h lb request))"
  using assms
  by (auto simp: RoundRobin_balanceLoad_def queues_nonempty_def Let_def queue_at_def fill_queue_eq
           split: sum.splits list.splits option.splits if_splits)

subsection \<open>Round robin: the cycle\<close>

lemma RoundRobin_balanceLoad_other_queue:
  assumes "requestType request \<noteq> key"
  shows "destinationQueues (snd (RoundRobin_balanceLoad h lb request)) key =
           destinationQueues lb key"
  using assms
  by (auto simp: RoundRobin_balanceLoad_def Let_def
           split: sum.splits list.splits if_splits)

lemma RoundRobin_balanceLoad_serviceMap:
  "serviceMap (snd (RoundRobin_balanceLoad h lb request)) = serviceMap lb"
  by (auto simp: RoundRobin_balanceLoad_def Let_def
           split: sum.splits list.splits if_splits)

lemma RoundRobin_calls_Cons:
  "RoundRobin_calls h lb (r # rs) =
     (fst (RoundRobin_balanceLoad h lb r) #
        fst (RoundRobin_calls h (snd (RoundRobin_balanceLoad h lb r)) rs),
      snd (RoundRobin_calls h (snd (RoundRobin_balanceLoad h lb r)) rs))"
  by (simp split: prod.splits)

lemma results_for_Cons:
  "results_for key (r # rs) (x # xs) =
     (if requestType r = key then x # results_for key rs xs else results_for key rs xs)"
  by (simp add: results_for_def)

lemma results_for_Nil: "results_for key [] xs = []"
  by (simp add: results_for_def)

lemma RoundRobin_calls_other_queue:
  assumes "\<forall>r \<in> set requests. requestType r \<noteq> key"
  shows "destinationQueues (snd (RoundRobin_calls h lb requests)) key = destinationQueues lb key"
  using assms
proof (induction requests arbitrary: lb)
  case Nil
  then show ?case by simp
next
  case (Cons r rs)
  have "destinationQueues (snd (RoundRobin_calls h (snd (RoundRobin_balanceLoad h lb r)) rs)) key =
          destinationQueues (snd (RoundRobin_balanceLoad h lb r)) key"
    using Cons.prems by (intro Cons.IH) simp
  also have "\<dots> = destinationQueues lb key"
    using Cons.prems by (intro RoundRobin_balanceLoad_other_queue) simp
  finally show ?case by (simp only: RoundRobin_calls_Cons snd_conv)
qed

lemma cycle_shift:
  assumes "q = p # rest"
  shows "Inr p # map (\<lambda>k. Inr ((rest @ [p]) ! (k mod length (rest @ [p])))) [0..<n] =
           (map (\<lambda>k. Inr (q ! (k mod length q))) [0..<Suc n] :: ('e + 'a) list)"
proof -
  have "map (\<lambda>k. Inr ((rest @ [p]) ! (k mod length (rest @ [p])))) [0..<n] =
          (map (\<lambda>k. Inr (q ! (Suc k mod length q))) [0..<n] :: ('e + 'a) list)"
  proof (rule map_cong [OF refl])
    fix k
    have "rotate1 q ! (k mod length q) = q ! (Suc (k mod length q) mod length q)"
      by (rule nth_rotate1) (simp add: assms)
    then show "(Inr ((rest @ [p]) ! (k mod length (rest @ [p]))) :: 'e + 'a) =
                 Inr (q ! (Suc k mod length q))"
      by (simp add: assms mod_Suc_eq)
  qed
  then show ?thesis
    unfolding map_upt_Suc by (simp add: assms)
qed

lemma RoundRobin_interleaved_stored:
  assumes "serviceMap lb key = Some sp" and "service_heap h sp = Some s"
    and "destinations s \<noteq> []"
    and "destinationQueues lb key = Some q" and "q \<noteq> []"
  shows "results_for key requests (fst (RoundRobin_calls h lb requests)) =
           map (\<lambda>k. Inr (q ! (k mod length q)))
             [0..<length (filter (\<lambda>r. requestType r = key) requests)] \<and>
         destinationQueues (snd (RoundRobin_calls h lb requests)) key =
           Some (rotate (length (filter (\<lambda>r. requestType r = key) requests)) q)"
  using assms
proof (induction requests arbitrary: lb q)
  case Nil
  then show ?case by (simp add: results_for_Nil)
next
  case (Cons r rs)
  let ?lb' = "snd (RoundRobin_balanceLoad h lb r)"
  let ?n = "length (filter (\<lambda>r. requestType r = key) rs)"
  have sm: "serviceMap ?lb' key = Some sp"
    using Cons.prems(1) by (simp add: RoundRobin_balanceLoad_serviceMap)
  show ?case
  proof (cases "requestType r = key")
    case True
    obtain p rest where q: "q = p # rest"
      using Cons.prems(5) by (cases q) auto
    have gd: "getDestinations h lb r = Inr (destinations s)"
      using Cons.prems(1,2) True by (simp add: getDestinations_def)
    have step: "RoundRobin_balanceLoad h lb r =
        (Inr p, lb\<lparr>destinationQueues := (destinationQueues lb)(key \<mapsto> rest @ [p])\<rparr>)"
      using RoundRobin_balanceLoad_stored [OF gd Cons.prems(3)] Cons.prems(4) q True by simp
    then have qu: "destinationQueues ?lb' key = Some (rest @ [p])" by simp
    have ne: "rest @ [p] \<noteq> []" by simp
    note ih = Cons.IH [OF sm Cons.prems(2,3) qu ne]
    have "results_for key (r # rs) (fst (RoundRobin_calls h lb (r # rs))) =
            Inr p # results_for key rs (fst (RoundRobin_calls h ?lb' rs))"
      using True step by (simp add: RoundRobin_calls_Cons results_for_Cons del: RoundRobin_calls.simps(2))
    also have "\<dots> = Inr p # map (\<lambda>k. Inr ((rest @ [p]) ! (k mod length (rest @ [p])))) [0..<?n]"
      using ih by simp
    also have "\<dots> = map (\<lambda>k. Inr (q ! (k mod length q))) [0..<Suc ?n]"
      by (rule cycle_shift [OF q])
    finally have res: "results_for key (r # rs) (fst (RoundRobin_calls h lb (r # rs))) =
        map (\<lambda>k. Inr (q ! (k mod length q)))
          [0..<length (filter (\<lambda>r. requestType r = key) (r # rs))]"
      using True by simp
    have "destinationQueues (snd (RoundRobin_calls h lb (r # rs))) key =
            Some (rotate ?n (rest @ [p]))"
      using ih by (simp add: RoundRobin_calls_Cons del: RoundRobin_calls.simps(2))
    also have "rotate ?n (rest @ [p]) =
                 rotate (length (filter (\<lambda>r. requestType r = key) (r # rs))) q"
      using True by (simp add: q rotate1_rotate_swap)
    finally show ?thesis using res by simp
  next
    case False
    have qu: "destinationQueues ?lb' key = Some q"
      using Cons.prems(4) False by (simp add: RoundRobin_balanceLoad_other_queue)
    note ih = Cons.IH [OF sm Cons.prems(2,3) qu Cons.prems(5)]
    then show ?thesis
      using False by (simp add: RoundRobin_calls_Cons results_for_Cons del: RoundRobin_calls.simps(2))
  qed
qed

lemma RoundRobin_interleaved_fresh:
  assumes "serviceMap lb key = Some sp" and "service_heap h sp = Some s"
    and "destinations s = ds" and "ds \<noteq> []"
    and "destinationQueues lb key = None"
  shows "results_for key requests (fst (RoundRobin_calls h lb requests)) =
           map (\<lambda>k. Inr (ds ! (k mod length ds)))
             [0..<length (filter (\<lambda>r. requestType r = key) requests)] \<and>
         (filter (\<lambda>r. requestType r = key) requests \<noteq> [] \<longrightarrow>
            destinationQueues (snd (RoundRobin_calls h lb requests)) key =
              Some (rotate (length (filter (\<lambda>r. requestType r = key) requests)) ds))"
  using assms(1,5)
proof (induction requests arbitrary: lb)
  case Nil
  then show ?case by (simp add: results_for_Nil)
next
  case (Cons r rs)
  let ?lb' = "snd (RoundRobin_balanceLoad h lb r)"
  let ?n = "length (filter (\<lambda>r. requestType r = key) rs)"
  have sm: "serviceMap ?lb' key = Some sp"
    using Cons.prems(1) by (simp add: RoundRobin_balanceLoad_serviceMap)
  show ?case
  proof (cases "requestType r = key")
    case True
    obtain p rest where ds: "ds = p # rest"
      using assms(4) by (cases ds) auto
    have gd: "getDestinations h lb r = Inr (p # rest)"
      using Cons.prems(1) assms(2,3) True ds by (simp add: getDestinations_def)
    have step: "RoundRobin_balanceLoad h lb r =
        (Inr p, lb\<lparr>destinationQueues := (destinationQueues lb)(key \<mapsto> rest @ [p])\<rparr>)"
      using RoundRobin_balanceLoad_fresh [OF gd] Cons.prems(2) True by simp
    then have qu: "destinationQueues ?lb' key = Some (rest @ [p])" by simp
    have ne: "rest @ [p] \<noteq> []" by simp
    have dne: "destinations s \<noteq> []" using assms(3,4) by simp
    note st = RoundRobin_interleaved_stored [OF sm assms(2) dne qu ne, of rs]
    have "results_for key (r # rs) (fst (RoundRobin_calls h lb (r # rs))) =
            Inr p # results_for key rs (fst (RoundRobin_calls h ?lb' rs))"
      using True step by (simp add: RoundRobin_calls_Cons results_for_Cons del: RoundRobin_calls.simps(2))
    also have "\<dots> = Inr p # map (\<lambda>k. Inr ((rest @ [p]) ! (k mod length (rest @ [p])))) [0..<?n]"
      using st by simp
    also have "\<dots> = map (\<lambda>k. Inr (ds ! (k mod length ds))) [0..<Suc ?n]"
      by (rule cycle_shift [OF ds])
    finally have res: "results_for key (r # rs) (fst (RoundRobin_calls h lb (r # rs))) =
        map (\<lambda>k. Inr (ds ! (k mod length ds)))
          [0..<length (filter (\<lambda>r. requestType r = key) (r # rs))]"
      using True by simp
    have "destinationQueues (snd (RoundRobin_calls h lb (r # rs))) key =
            Some (rotate ?n (rest @ [p]))"
      using st by (simp add: RoundRobin_calls_Cons del: RoundRobin_calls.simps(2))
    also have "rotate ?n (rest @ [p]) =
                 rotate (length (filter (\<lambda>r. requestType r = key) (r # rs))) ds"
      using True by (simp add: ds rotate1_rotate_swap)
    finally show ?thesis using res by simp
  next
    case False
    have qu: "destinationQueues ?lb' key = None"
      using Cons.prems(2) False by (simp add: RoundRobin_balanceLoad_other_queue)
    note ih = Cons.IH [OF sm qu]
    then show ?thesis
      using False by (simp add: RoundRobin_calls_Cons results_for_Cons del: RoundRobin_calls.simps(2))
  qed
qed

text \<open>
  Claim C6. The balancer keeps one queue per request type, and a call touches only the
  queue of its own request type. Starting with no queue stored for a request type
  \<open>key\<close> whose Service has the candidates \<open>ds\<close>, the calls for \<open>key\<close>, however
  they are interleaved with calls for other request types, return \<open>ds ! 0\<close>,
  \<open>ds ! 1\<close>, \<open>\<dots>\<close> and start again at the front after the last one: the call
  number \<open>k\<close> for \<open>key\<close> returns \<open>ds ! (k mod length ds)\<close>, and the queue stored
  for \<open>key\<close> is \<open>ds\<close> rotated once per such call. The queue of a request type for
  which no call was made is as before. For \<open>ds = [A, B, C]\<close> six calls for \<open>key\<close>
  return A, B, C, A, B, C.
\<close>

theorem RoundRobin_cycles:
  assumes "serviceMap lb key = Some sp" and "service_heap h sp = Some s"
    and "destinations s = ds" and "ds \<noteq> []"
    and "destinationQueues lb key = None"
  shows "results_for key requests (fst (RoundRobin_calls h lb requests)) =
           map (\<lambda>k. Inr (ds ! (k mod length ds)))
             [0..<length (filter (\<lambda>r. requestType r = key) requests)] \<and>
         (filter (\<lambda>r. requestType r = key) requests \<noteq> [] \<longrightarrow>
            destinationQueues (snd (RoundRobin_calls h lb requests)) key =
              Some (rotate (length (filter (\<lambda>r. requestType r = key) requests)) ds)) \<and>
         (\<forall>key'. (\<forall>r \<in> set requests. requestType r \<noteq> key') \<longrightarrow>
            destinationQueues (snd (RoundRobin_calls h lb requests)) key' =
              destinationQueues lb key') \<and>
         ((\<forall>r \<in> set requests. requestType r = key) \<longrightarrow>
            fst (RoundRobin_calls h lb requests) =
              map (\<lambda>k. Inr (ds ! (k mod length ds))) [0..<length requests]) \<and>
         (\<forall>A B C. ds = [A, B, C] \<and>
            length (filter (\<lambda>r. requestType r = key) requests) = 6 \<longrightarrow>
            results_for key requests (fst (RoundRobin_calls h lb requests)) =
              [Inr A, Inr B, Inr C, Inr A, Inr B, Inr C])"
proof -
  note gen = RoundRobin_interleaved_fresh [OF assms, of requests]
  have six: "[0..<6] = [0, 1, 2, 3, 4, 5 :: nat]"
    by code_simp
  have abc: "results_for key requests (fst (RoundRobin_calls h lb requests)) =
      [Inr A, Inr B, Inr C, Inr A, Inr B, Inr C]"
    if "ds = [A, B, C]" and "length (filter (\<lambda>r. requestType r = key) requests) = 6" for A B C
    using gen that by (simp add: six)
  have frame: "destinationQueues (snd (RoundRobin_calls h lb requests)) key' =
      destinationQueues lb key'"
    if "\<forall>r \<in> set requests. requestType r \<noteq> key'" for key'
    using that by (rule RoundRobin_calls_other_queue)
  have same: "fst (RoundRobin_calls h lb requests) =
      map (\<lambda>k. Inr (ds ! (k mod length ds))) [0..<length requests]"
    if "\<forall>r \<in> set requests. requestType r = key"
    by (rule RoundRobin_calls_fresh [OF that assms])
  show ?thesis using gen abc frame same by blast
qed

lemma main_service_registered:
  "serviceMap main_roundRobinLB ''http'' = Some 10"
  "destinationQueues main_roundRobinLB ''http'' = None"
  "service_heap main_heap 10 = Some main_service"
  "serviceMap main_leastConnectionLB ''http'' = Some 10"
  by (simp_all add: main_roundRobinLB_def main_leastConnectionLB_def registerService_def
        main_heap_def)

theorem RoundRobin_cycles_witness:
  "results_for ''http''
     [main_request, main_request\<lparr>requestType := ''grpc''\<rparr>, main_request,
      main_request\<lparr>requestType := ''grpc''\<rparr>, main_request, main_request]
     (fst (RoundRobin_calls main_heap (registerService main_roundRobinLB ''grpc'' 10)
        [main_request, main_request\<lparr>requestType := ''grpc''\<rparr>, main_request,
         main_request\<lparr>requestType := ''grpc''\<rparr>, main_request, main_request])) =
     [Inr 1, Inr 2, Inr 3, Inr 1] \<and>
   fst (RoundRobin_calls main_heap (registerService main_roundRobinLB ''grpc'' 10)
        [main_request, main_request\<lparr>requestType := ''grpc''\<rparr>, main_request,
         main_request\<lparr>requestType := ''grpc''\<rparr>, main_request, main_request]) =
     [Inr 1, Inr 1, Inr 2, Inr 2, Inr 3, Inr 1] \<and>
   destinationQueues
     (snd (RoundRobin_calls main_heap (registerService main_roundRobinLB ''grpc'' 10)
        [main_request, main_request\<lparr>requestType := ''grpc''\<rparr>, main_request,
         main_request\<lparr>requestType := ''grpc''\<rparr>, main_request, main_request]))
     ''http'' = Some [2, 3, 1]"
proof -
  let ?lb = "registerService main_roundRobinLB ''grpc'' 10"
  let ?g = "main_request\<lparr>requestType := ''grpc''\<rparr>"
  let ?rs = "[main_request, ?g, main_request, ?g, main_request, main_request]"
  have h1: "serviceMap ?lb ''http'' = Some 10"
    by (simp add: registerService_def main_roundRobinLB_def)
  have h5: "destinationQueues ?lb ''http'' = None"
    by (simp add: registerService_def main_roundRobinLB_def)
  have h3: "destinations main_service = [1, 2, 3]" by (rule main_service_destinations)
  have h4: "[1, 2, 3] \<noteq> ([] :: dest_ptr list)" by simp
  have cnt: "filter (\<lambda>r. requestType r = ''http'') ?rs =
      [main_request, main_request, main_request, main_request]"
    by (simp add: main_request_def)
  have four: "[0..<4] = [0, 1, 2, 3 :: nat]" by code_simp
  have rot: "rotate 4 [1, 2, 3 :: dest_ptr] = [2, 3, 1]" by code_simp
  note cyc = RoundRobin_cycles [OF h1 main_service_registered(3) h3 h4 h5, of ?rs]
  have res: "results_for ''http'' ?rs (fst (RoundRobin_calls main_heap ?lb ?rs)) =
      [Inr 1, Inr 2, Inr 3, Inr 1]"
    using cyc by (simp only: cnt list.size length_Cons) (simp add: four)
  have "destinationQueues (snd (RoundRobin_calls main_heap ?lb ?rs)) ''http'' =
      Some (rotate (length (filter (\<lambda>r. requestType r = ''http'') ?rs)) [1, 2, 3])"
    using cyc by (simp only: cnt) simp
  then have que: "destinationQueues (snd (RoundRobin_calls main_heap ?lb ?rs)) ''http'' =
      Some [2, 3, 1]"
    by (simp only: cnt) (simp add: rot)
  have all: "fst (RoundRobin_calls main_heap ?lb ?rs) =
      [Inr 1, Inr 1, Inr 2, Inr 2, Inr 3, Inr 1]"
    by (simp add: RoundRobin_balanceLoad_def getDestinations_def main_service_registered
          main_service_destinations main_request_def fill_queue_eq queue_at_def
          main_roundRobinLB_def registerService_def Let_def)
  show ?thesis using res all que by blast
qed

subsection \<open>Round robin after a change of the candidate set\<close>

lemma main_first_call:
  "RoundRobin_balanceLoad main_heap main_roundRobinLB main_request =
     (Inr 1, \<lparr>serviceMap = [''http'' \<mapsto> 10], destinationQueues = [''http'' \<mapsto> [2, 3, 1]]\<rparr>)"
  by (simp add: RoundRobin_balanceLoad_def getDestinations_def main_service_registered
        main_service_destinations main_request_def fill_queue_eq queue_at_def
        main_roundRobinLB_def registerService_def)

text \<open>
  Claim C7 as stated fails when the change empties the candidate set. After the first
  call for \<^verbatim>\<open>"http"\<close> the stored queue is \<open>[2, 3, 1]\<close>; once the three Destinations
  are removed from the Service, the next call does not continue with Destination 2 but
  fails with the error of the emptiness check, which precedes the use of the queue.
\<close>

theorem RoundRobin_stale_rotation_counterexample:
  "destinationQueues (snd (RoundRobin_balanceLoad main_heap main_roundRobinLB main_request))
     ''http'' = Some [2, 3, 1] \<and>
   destinations (removeDestination (removeDestination (removeDestination main_service 1) 2) 3)
     = [] \<and>
   RoundRobin_balanceLoad
     (main_heap\<lparr>service_heap := [10 \<mapsto>
        removeDestination (removeDestination (removeDestination main_service 1) 2) 3]\<rparr>)
     (snd (RoundRobin_balanceLoad main_heap main_roundRobinLB main_request))
     main_request =
   (Inl NoCandidatesError,
    snd (RoundRobin_balanceLoad main_heap main_roundRobinLB main_request))"
proof -
  have lb1: "snd (RoundRobin_balanceLoad main_heap main_roundRobinLB main_request) =
      \<lparr>serviceMap = [''http'' \<mapsto> 10], destinationQueues = [''http'' \<mapsto> [2, 3, 1]]\<rparr>"
    by (simp add: main_first_call)
  show ?thesis
    unfolding lb1
    by (simp add: RoundRobin_balanceLoad_def getDestinations_def
          main_service_destinations removeDestination_def main_request_def)
qed

theorem RoundRobin_stale_rotation_witness:
  "destinationQueues (snd (RoundRobin_balanceLoad main_heap main_roundRobinLB main_request))
     ''http'' = Some [2, 3, 1] \<and>
   destinations (addDestination (removeDestination main_service 2) 4) = [1, 3, 4] \<and>
   fst (RoundRobin_calls
     (main_heap\<lparr>service_heap := [10 \<mapsto> addDestination (removeDestination main_service 2) 4]\<rparr>)
     (snd (RoundRobin_balanceLoad main_heap main_roundRobinLB main_request))
     [main_request, main_request, main_request, main_request]) =
   [Inr 2, Inr 3, Inr 1, Inr 2]"
proof -
  let ?lb = "snd (RoundRobin_balanceLoad main_heap main_roundRobinLB main_request)"
  let ?s = "addDestination (removeDestination main_service 2) 4"
  let ?h = "main_heap\<lparr>service_heap := [10 \<mapsto> ?s]\<rparr>"
  let ?rs = "[main_request, main_request, main_request, main_request]"
  have h1: "\<forall>r \<in> set ?rs. requestType r = ''http''" by (simp add: main_request_def)
  have h2: "destinationQueues ?lb ''http'' = Some [2, 3, 1]" by (simp add: main_first_call)
  have h3: "[2, 3, 1] \<noteq> ([] :: dest_ptr list)" by simp
  have h4: "serviceMap ?lb ''http'' = Some 10" by (simp add: main_first_call)
  have h5: "service_heap ?h 10 = Some ?s" by simp
  have ds: "destinations ?s = [1, 3, 4]"
    by (simp add: main_service_destinations addDestination_def removeDestination_def)
  then have h6: "destinations ?s \<noteq> []" by simp
  have four: "[0..<4] = [0, 1, 2, 3 :: nat]" by code_simp
  show ?thesis
    using h2 ds RoundRobin_stale_rotation [OF h1 h2 h3 h4 h5 h6]
    by (simp add: four)
qed

theorem LeastConnection_first_minimum_witness:
  "getDestinations
     (main_heap\<lparr>dest_heap :=
        [1 \<mapsto> \<lparr>ipAddress = ''192.168.0.1'', requestsBeingServed = 2, threshold = 12\<rparr>,
         2 \<mapsto> \<lparr>ipAddress = ''192.168.0.2'', requestsBeingServed = 1, threshold = 20\<rparr>,
         3 \<mapsto> \<lparr>ipAddress = ''192.168.0.3'', requestsBeingServed = 1, threshold = 15\<rparr>]\<rparr>)
     main_leastConnectionLB main_request = Inr [1, 2, 3] \<and>
   LeastConnection_balanceLoad
     (main_heap\<lparr>dest_heap :=
        [1 \<mapsto> \<lparr>ipAddress = ''192.168.0.1'', requestsBeingServed = 2, threshold = 12\<rparr>,
         2 \<mapsto> \<lparr>ipAddress = ''192.168.0.2'', requestsBeingServed = 1, threshold = 20\<rparr>,
         3 \<mapsto> \<lparr>ipAddress = ''192.168.0.3'', requestsBeingServed = 1, threshold = 15\<rparr>]\<rparr>)
     main_leastConnectionLB main_request = Inr 2"
proof -
  let ?dh = "[1 \<mapsto> \<lparr>ipAddress = ''192.168.0.1'', requestsBeingServed = 2, threshold = 12\<rparr>,
         2 \<mapsto> \<lparr>ipAddress = ''192.168.0.2'', requestsBeingServed = 1, threshold = 20\<rparr>,
         3 \<mapsto> \<lparr>ipAddress = ''192.168.0.3'', requestsBeingServed = 1, threshold = (15 :: int32)\<rparr>]
         :: dest_ptr \<rightharpoonup> Destination"
  let ?h = "main_heap\<lparr>dest_heap := ?dh\<rparr>"
  have h1: "getDestinations ?h main_leastConnectionLB main_request = Inr [1, 2, 3]"
    by (simp add: getDestinations_def main_service_registered main_service_destinations
          main_request_def main_heap_def)
  have h2: "[1, 2, 3] \<noteq> ([] :: dest_ptr list)" by simp
  have h3: "\<forall>q \<in> set [1, 2, 3]. dest_heap ?h q = Some (the (?dh q))" by simp
  from LeastConnection_first_minimum [OF h1 h2 h3]
  obtain pre p post where
    r: "LeastConnection_balanceLoad ?h main_leastConnectionLB main_request = Inr p" and
    d: "[1, 2, 3] = pre @ p # post" and
    le: "\<forall>q \<in> set [1, 2, 3 :: dest_ptr].
           requestsBeingServed (the (?dh p)) \<le>s requestsBeingServed (the (?dh q))" and
    lt: "\<forall>q \<in> set pre. requestsBeingServed (the (?dh p)) <s requestsBeingServed (the (?dh q))"
    by blast
  have "p \<in> set [1, 2, 3]" using d by (metis in_set_conv_decomp)
  then have "p = 1 \<or> p = 2 \<or> p = 3" by simp
  moreover have "p \<noteq> 1" using le by (auto simp: word_sle_eq)
  moreover have "p \<noteq> 3"
  proof
    assume "p = 3"
    then have "pre = [1, 2]" using d by (simp add: Cons_eq_append_conv append_eq_Cons_conv)
    then show False using lt \<open>p = 3\<close> by (simp add: word_sless_alt)
  qed
  ultimately have "p = 2" by blast
  then show ?thesis using h1 r by simp
qed

lemma main_routed_registered: "serviceMap main_routedLB ''http'' = Some 10"
  by (simp add: main_routedLB_def registerService_def)

theorem Routed_deterministic_witness:
  "getDestinations main_heap main_routedLB main_request = Inr [1, 2, 3] \<and>
   getDestinations
     (main_heap\<lparr>dest_heap := [1 \<mapsto> \<lparr>ipAddress = ''192.168.0.1'', requestsBeingServed = 5, threshold = 12\<rparr>]\<rparr>)
     main_routedLB (main_request\<lparr>parameters := [''Priority'' \<mapsto> ''High'']\<rparr>) = Inr [1, 2, 3] \<and>
   Routed_balanceLoad (\<lambda>s. word_of_nat (length s)) main_heap main_routedLB main_request = Inr 2 \<and>
   Routed_balanceLoad (\<lambda>s. word_of_nat (length s))
     (main_heap\<lparr>dest_heap := [1 \<mapsto> \<lparr>ipAddress = ''192.168.0.1'', requestsBeingServed = 5, threshold = 12\<rparr>]\<rparr>)
     main_routedLB (main_request\<lparr>parameters := [''Priority'' \<mapsto> ''High'']\<rparr>) = Inr 2"
proof -
  let ?h' = "main_heap\<lparr>dest_heap := [1 \<mapsto> \<lparr>ipAddress = ''192.168.0.1'', requestsBeingServed = 5, threshold = 12\<rparr>]\<rparr>"
  let ?r2 = "main_request\<lparr>parameters := [''Priority'' \<mapsto> ''High'']\<rparr>"
  have h1: "getDestinations main_heap main_routedLB main_request = Inr [1, 2, 3]"
    by (simp add: getDestinations_def main_routed_registered main_service_registered
          main_service_destinations main_request_def)
  have h2: "getDestinations ?h' main_routedLB ?r2 = Inr [1, 2, 3]"
    by (simp add: getDestinations_def main_routed_registered main_heap_def
          main_service_destinations main_request_def)
  have h3: "[1, 2, 3] \<noteq> ([] :: dest_ptr list)" by simp
  have h4: "id ?r2 = id main_request" by simp
  show ?thesis
    using h1 h2 Routed_deterministic [OF h1 h2 h3 h4, of "\<lambda>s. word_of_nat (length s)"]
    by (simp add: main_request_def)
qed

theorem balanceLoad_failure_atomic_witness:
  "balanceLoad (\<lambda>s. word_of_nat (length s))
     (main_heap\<lparr>service_heap := [10 \<mapsto> \<lparr>name = [], destinations = []\<rparr>]\<rparr>)
     (RoundRobinLB main_roundRobinLB) main_request =
   (Inl NoCandidatesError,
    main_heap\<lparr>service_heap := [10 \<mapsto> \<lparr>name = [], destinations = []\<rparr>]\<rparr>,
    RoundRobinLB main_roundRobinLB) \<and>
   balanceLoad (\<lambda>s. word_of_nat (length s)) main_heap
     (RoundRobinLB main_roundRobinLB) (main_request\<lparr>requestType := ''grpc''\<rparr>) =
   (Inl UnknownRequestTypeError, main_heap, RoundRobinLB main_roundRobinLB)"
proof -
  let ?hash = "\<lambda>s :: string. (word_of_nat (length s) :: size_t)"
  let ?h = "main_heap\<lparr>service_heap := [10 \<mapsto> \<lparr>name = [], destinations = []\<rparr>]\<rparr>"
  let ?lb = "RoundRobinLB main_roundRobinLB"
  let ?r = "main_request\<lparr>requestType := ''grpc''\<rparr>"
  have a: "fst (balanceLoad ?hash ?h ?lb main_request) = Inl NoCandidatesError"
    by (simp add: RoundRobin_balanceLoad_def getDestinations_def main_service_registered
          main_request_def)
  have b: "fst (balanceLoad ?hash main_heap ?lb ?r) = Inl UnknownRequestTypeError"
    by (simp add: RoundRobin_balanceLoad_def getDestinations_def main_roundRobinLB_def
          registerService_def main_request_def)
  have "snd (balanceLoad ?hash ?h ?lb main_request) = (?h, ?lb)"
    using a by (intro balanceLoad_failure_atomic) simp
  moreover have "snd (balanceLoad ?hash main_heap ?lb ?r) = (main_heap, ?lb)"
    using b by (intro balanceLoad_failure_atomic) simp
  ultimately show ?thesis using a b by (metis prod.collapse)
qed

lemma main_queues_nonempty: "queues_nonempty main_roundRobinLB"
  unfolding main_roundRobinLB_def
  by (intro queues_nonempty_registerService queues_nonempty_initial)

theorem balanceLoad_error_kinds_witness:
  "fst (balanceLoad (\<lambda>s. word_of_nat (length s))
     \<lparr>dest_heap = [1 \<mapsto> \<lparr>ipAddress = ''D1'', requestsBeingServed = 1, threshold = 1\<rparr>,
                   2 \<mapsto> \<lparr>ipAddress = ''D2'', requestsBeingServed = 1, threshold = 1\<rparr>],
      service_heap = [10 \<mapsto> \<lparr>name = ''S'', destinations = [1, 2]\<rparr>]\<rparr>
     (LeastConnectionLB main_leastConnectionLB) main_request) = Inr 1 \<and>
   fst (acceptRequest \<lparr>ipAddress = ''D1'', requestsBeingServed = 1, threshold = 1\<rparr> main_request)
     = False \<and>
   fst (balanceLoad (\<lambda>s. word_of_nat (length s))
     \<lparr>dest_heap = [1 \<mapsto> \<lparr>ipAddress = ''D1'', requestsBeingServed = 1, threshold = 1\<rparr>,
                   2 \<mapsto> \<lparr>ipAddress = ''D2'', requestsBeingServed = 1, threshold = 1\<rparr>],
      service_heap = [10 \<mapsto> \<lparr>name = ''S'', destinations = [1, 2]\<rparr>]\<rparr>
     (RoundRobinLB main_roundRobinLB) main_request) = Inr 1 \<and>
   fst (balanceLoad (\<lambda>s. word_of_nat (length s)) main_heap
     (LeastConnectionLB main_leastConnectionLB)
     (main_request\<lparr>requestType := ''grpc''\<rparr>)) = Inl UnknownRequestTypeError \<and>
   fst (balanceLoad (\<lambda>s. word_of_nat (length s))
     \<lparr>dest_heap = Map.empty, service_heap = [10 \<mapsto> \<lparr>name = ''S'', destinations = []\<rparr>]\<rparr>
     (LeastConnectionLB main_leastConnectionLB) main_request) = Inl NoCandidatesError"
proof -
  let ?hash = "\<lambda>s :: string. (word_of_nat (length s) :: size_t)"
  let ?S = "\<lparr>name = ''S'', destinations = [1, 2 :: dest_ptr]\<rparr>"
  let ?full = "\<lparr>dest_heap = [1 \<mapsto> \<lparr>ipAddress = ''D1'', requestsBeingServed = 1, threshold = 1\<rparr>,
                   2 \<mapsto> \<lparr>ipAddress = ''D2'', requestsBeingServed = 1, threshold = (1 :: int32)\<rparr>],
      service_heap = [10 \<mapsto> ?S]\<rparr>"
  let ?none = "\<lparr>dest_heap = (Map.empty :: dest_ptr \<rightharpoonup> Destination),
               service_heap = [10 \<mapsto> \<lparr>name = ''S'', destinations = []\<rparr>]\<rparr>"
  let ?lb = "LeastConnectionLB main_leastConnectionLB"
  let ?rr = "RoundRobinLB main_roundRobinLB"
  have reg: "serviceMap_of ?lb (requestType main_request) = Some 10"
    by (simp add: main_service_registered main_request_def)
  have unreg: "serviceMap_of ?lb (requestType (main_request\<lparr>requestType := ''grpc''\<rparr>)) = None"
    by (simp add: main_leastConnectionLB_def registerService_def)
  have a: "fst (balanceLoad ?hash main_heap ?lb (main_request\<lparr>requestType := ''grpc''\<rparr>)) =
             Inl UnknownRequestTypeError"
    using balanceLoad_error_kinds [of ?hash main_heap ?lb "main_request\<lparr>requestType := ''grpc''\<rparr>"]
      unreg by blast
  have "\<exists>sp s. serviceMap_of ?lb (requestType main_request) = Some sp \<and>
          service_heap ?none sp = Some s \<and> destinations s = []"
    using reg by simp
  then have b: "fst (balanceLoad ?hash ?none ?lb main_request) = Inl NoCandidatesError"
    using balanceLoad_error_kinds [of ?hash ?none ?lb main_request] by blast
  have lchyp: "(?lb = LeastConnectionLB main_leastConnectionLB \<or>
                ?lb = RoutedLB main_leastConnectionLB) \<and>
        serviceMap main_leastConnectionLB (requestType main_request) = Some 10 \<and>
        service_heap ?full 10 = Some ?S \<and> destinations ?S \<noteq> [] \<and>
        (\<forall>q \<in> set (destinations ?S). dest_heap ?full q \<noteq> None)"
    by (simp add: main_service_registered main_request_def)
  have c: "\<exists>p \<in> set (destinations ?S).
        fst (balanceLoad ?hash ?full ?lb main_request) = Inr p \<and> dest_heap ?full p \<noteq> None"
    using balanceLoad_error_kinds [of ?hash ?full ?lb main_request] lchyp by blast
  have rrhyp: "?rr = RoundRobinLB main_roundRobinLB \<and> queues_nonempty main_roundRobinLB \<and>
        serviceMap main_roundRobinLB (requestType main_request) = Some 10 \<and>
        service_heap ?full 10 = Some ?S \<and> destinations ?S \<noteq> []"
    by (simp add: main_service_registered main_request_def main_queues_nonempty)
  have "\<exists>p rest. fst (balanceLoad ?hash ?full ?rr main_request) = Inr p \<and>
        (case destinationQueues main_roundRobinLB (requestType main_request) of
           None \<Rightarrow> destinations ?S = p # rest
         | Some q \<Rightarrow> q = p # rest)"
    using balanceLoad_error_kinds [of ?hash ?full ?rr main_request] rrhyp by blast
  then have d: "fst (balanceLoad ?hash ?full ?rr main_request) = Inr 1"
    by (auto simp: main_service_registered main_request_def)
  have e: "fst (balanceLoad ?hash ?full ?lb main_request) = Inr 1"
    by (simp add: LeastConnection_balanceLoad_def getDestinations_def main_service_registered
          main_request_def fewer_requests_def word_sless_alt)
  have f: "fst (acceptRequest \<lparr>ipAddress = ''D1'', requestsBeingServed = 1, threshold = 1\<rparr>
                   main_request) = False"
    by (simp add: acceptRequest_def word_sless_alt)
  show ?thesis using a b c d e f by simp
qed

end
